theory Spec2Isabelle
  imports Complex_Main "HOL-Library.Sublist"
begin

section \<open>Python strings\<close>

text \<open>
  A Python \<open>str\<close> is a sequence of Unicode code points, so it is modelled as a list of
  natural numbers; \<open>lit\<close> turns an ASCII literal of the source into that form. The bullet
  glyph of \<open>app.py\<close> line 170 is the single code point U+2022 (8226).
\<close>

type_synonym pystr = "nat list"

definition lit :: "string \<Rightarrow> pystr" where
  "lit s = map of_char s"

definition newline :: nat where
  "newline = 10"

definition bullet :: nat where
  "bullet = 8226"

text \<open>
  \<open>str.replace(old, new)\<close>: every non-overlapping occurrence of \<open>old\<close>, found scanning
  from the left, is replaced by \<open>new\<close>. With an empty \<open>old\<close> Python puts \<open>new\<close> before
  every character and at the end.
\<close>

function str_replace :: "'a list \<Rightarrow> 'a list \<Rightarrow> 'a list \<Rightarrow> 'a list" where
  "str_replace old new s =
     (if old = [] then new @ concat (map (\<lambda>c. c # new) s)
      else if s = [] then []
      else if prefix old s then new @ str_replace old new (drop (length old) s)
      else hd s # str_replace old new (tl s))"
  by pat_completeness auto
termination
  by (relation "measure (\<lambda>(old, new, s). length s)") auto

declare str_replace.simps [simp del]

text \<open>
  \<open>str.strip()\<close> removes leading and trailing whitespace; \<open>isspace\<close> is the table of
  code points for which Python's \<open>str.isspace\<close> holds.
\<close>

definition isspace :: "nat \<Rightarrow> bool" where
  "isspace c \<longleftrightarrow>
     (9 \<le> c \<and> c \<le> 13) \<or> (28 \<le> c \<and> c \<le> 32) \<or> c = 133 \<or> c = 160 \<or> c = 5760 \<or>
     (8192 \<le> c \<and> c \<le> 8202) \<or> c = 8232 \<or> c = 8233 \<or> c = 8239 \<or> c = 8287 \<or> c = 12288"

definition strip :: "pystr \<Rightarrow> pystr" where
  "strip s = rev (dropWhile isspace (rev (dropWhile isspace s)))"

section \<open>Template rendering (lines 161 to 171 of \<open>send_bulk_emails\<close>)\<close>

definition personalize_subject :: "pystr \<Rightarrow> pystr \<Rightarrow> pystr \<Rightarrow> pystr \<Rightarrow> pystr" where
  "personalize_subject first_name last_name company_name subject =
     str_replace (lit ''{company_name}'') company_name
       (str_replace (lit ''{last_name}'') last_name
         (str_replace (lit ''{first_name}'') first_name subject))"

definition personalize_body :: "pystr \<Rightarrow> pystr \<Rightarrow> pystr \<Rightarrow> pystr \<Rightarrow> pystr \<Rightarrow> pystr" where
  "personalize_body first_name last_name company_name sender_name body =
     str_replace (lit ''{sender_name}'') sender_name
       (str_replace (lit ''{company_name}'') company_name
         (str_replace (lit ''{last_name}'') last_name
           (str_replace (lit ''{first_name}'') first_name body)))"

definition html_body :: "pystr \<Rightarrow> pystr" where
  "html_body body =
     str_replace [newline] (lit ''<br>'')
       (str_replace [newline, bullet] (lit ''<br>&bull;'') body)"

definition html_content :: "pystr \<Rightarrow> pystr" where
  "html_content body = lit ''<html><body>'' @ html_body body @ lit ''</body></html>''"

section \<open>Data\<close>

datatype py_error = IndexError | AttributeError | TypeError

text \<open>
  A cell of the spreadsheet as \<open>pandas.read_excel\<close> hands it over: a Python \<open>str\<close>, or
  any other object (the float NaN of a blank cell, a number), which is kept as the text
  that \<open>str()\<close> gives for it. A column of a row is \<open>None\<close> when the sheet has no such
  column, so that \<open>row.get(key, '')\<close> yields its default.
\<close>

datatype cell = Str pystr | NonStr pystr

record recipient_row =
  col_email :: "cell option"
  col_first_name :: "cell option"
  col_last_name :: "cell option"
  col_company_name :: "cell option"
  col_subject :: "cell option"
  col_body :: "cell option"

text \<open>One entry of \<open>email_config.json\<close>; the two optional keys are read with \<open>config.get\<close>.\<close>

record email_config =
  sender_email :: pystr
  smtp_server :: pystr
  smtp_port :: int
  sender_name :: "pystr option"
  sender_password :: "pystr option"

text \<open>The module's global state (lines 63 to 67).\<close>

record job_state =
  paused :: bool
  stop_sending :: bool
  current_index :: int
  total_emails :: int
  sent_emails :: int

definition initial_state :: job_state where
  "initial_state =
     \<lparr>paused = False, stop_sending = False, current_index = 0, total_emails = 0, sent_emails = 0\<rparr>"

text \<open>What one pass through the \<open>try\<close> block hands to the SMTP server.\<close>

record attempt =
  att_row :: int
  att_config :: nat
  att_server :: pystr
  att_port :: int
  att_login :: bool
  att_sender :: pystr
  att_from :: pystr
  att_to :: pystr
  att_subject :: pystr
  att_html :: pystr

text \<open>
  The observable effects of the engine, in order: log lines, a completed delivery, a
  delivery whose \<open>try\<close> block raised, the pacing \<open>time.sleep(delay)\<close>, and the closing
  log line with its count.
\<close>

datatype event =
    Log_error string
  | Log_warning string
  | Log_info string
  | Delivered attempt
  | Failed attempt
  | Sleep real
  | Finished nat

text \<open>The uploaded workbook: \<open>pd.read_excel\<close> raises, or gives the rows in order.\<close>

datatype excel = Unreadable | Sheet "recipient_row list"

text \<open>The three control routes, as other threads call them while the engine runs.\<close>

datatype control = Pause | Resume | Stop

text \<open>
  Everything outside the engine: the stored configurations, whether the \<open>try\<close> block
  of lines 169 to 199 runs to its end for a given attempt (the SMTP session and the
  pacing sleep), and the control requests completed by other threads before the engine
  takes the lock at the top of the iteration for row index \<open>i\<close>.
\<close>

record world =
  email_configs :: "email_config list"
  attempt_ok :: "attempt \<Rightarrow> bool"
  control :: "int \<Rightarrow> control list"

text \<open>The engine's own variables beside the shared state, and its effects so far.\<close>

record run =
  shared :: job_state
  config_index :: nat
  count :: nat
  trace :: "event list"

datatype step = Next (run_of: run) | Break (run_of: run) | Raise py_error (run_of: run) | Hang

section \<open>Control routes (lines 72 to 101)\<close>

definition pause_sending :: "job_state \<Rightarrow> job_state" where
  "pause_sending s = s\<lparr>paused := True\<rparr>"

definition resume_sending :: "job_state \<Rightarrow> job_state" where
  "resume_sending s = s\<lparr>paused := False\<rparr>"

definition stop_sending_emails :: "job_state \<Rightarrow> job_state" where
  "stop_sending_emails s = s\<lparr>stop_sending := True\<rparr>"

definition get_progress :: "job_state \<Rightarrow> int \<times> int" where
  "get_progress s = (total_emails s, sent_emails s)"

fun control_route :: "control \<Rightarrow> job_state \<Rightarrow> job_state" where
  "control_route Pause s = pause_sending s"
| "control_route Resume s = resume_sending s"
| "control_route Stop s = stop_sending_emails s"

definition controls :: "control list \<Rightarrow> job_state \<Rightarrow> job_state" where
  "controls cs s = foldl (\<lambda>s c. control_route c s) s cs"

section \<open>The bulk sender (lines 104 to 205)\<close>

text \<open>\<open>df.iloc[i]\<close>: a negative position counts from the end, one out of range raises.\<close>

definition iloc :: "'a list \<Rightarrow> int \<Rightarrow> py_error + 'a" where
  "iloc df i =
     (let n = int (length df); j = (if i < 0 then n + i else i)
      in if 0 \<le> j \<and> j < n then Inr (df ! nat j) else Inl IndexError)"

text \<open>
  Line 150, \<open>row.get('email', '').strip()\<close>, calls \<open>strip\<close> on the cell itself: an object
  that is not a \<open>str\<close> has no such method. Lines 151 to 155 wrap the cell in \<open>str()\<close>
  first.
\<close>

definition recipient_email_of :: "recipient_row \<Rightarrow> py_error + pystr" where
  "recipient_email_of row =
     (case col_email row of
        None \<Rightarrow> Inr (strip [])
      | Some (Str s) \<Rightarrow> Inr (strip s)
      | Some (NonStr t) \<Rightarrow> Inl AttributeError)"

definition str_field :: "cell option \<Rightarrow> pystr" where
  "str_field c = strip (case c of None \<Rightarrow> [] | Some (Str s) \<Rightarrow> s | Some (NonStr t) \<Rightarrow> t)"

definition name_of :: "email_config \<Rightarrow> pystr" where
  "name_of config = (case sender_name config of None \<Rightarrow> [] | Some n \<Rightarrow> n)"

definition has_password :: "email_config \<Rightarrow> bool" where
  "has_password config = (case sender_password config of None \<Rightarrow> False | Some p \<Rightarrow> p \<noteq> [])"

text \<open>Lines 144 to 177: the message built for row \<open>i\<close> with the configuration in turn.\<close>

definition make_attempt :: "nat \<Rightarrow> email_config \<Rightarrow> int \<Rightarrow> recipient_row \<Rightarrow> pystr \<Rightarrow> attempt" where
  "make_attempt k config i row recipient_email =
     (let first_name = str_field (col_first_name row);
          last_name = str_field (col_last_name row);
          company_name = str_field (col_company_name row);
          subject = personalize_subject first_name last_name company_name
                      (str_field (col_subject row));
          body = personalize_body first_name last_name company_name (name_of config)
                      (str_field (col_body row))
      in \<lparr>att_row = i, att_config = k,
          att_server = smtp_server config, att_port = smtp_port config,
          att_login = has_password config,
          att_sender = sender_email config,
          att_from = name_of config @ lit '' <'' @ sender_email config @ lit ''>'',
          att_to = recipient_email,
          att_subject = subject,
          att_html = html_content body\<rparr>)"

text \<open>
  Lines 137 to 139 run inside \<open>with state_lock\<close>: every route that writes \<open>paused\<close> takes
  the same lock first, so the flag cannot change between two polls and the state the
  loop sees is the one it entered with.
\<close>

partial_function (option) wait_while_paused :: "job_state \<Rightarrow> job_state option" where
  "wait_while_paused s = (if paused s then wait_while_paused s else Some s)"

text \<open>Lines 141 to 203, for a row already fetched.\<close>

definition process_row :: "world \<Rightarrow> real \<Rightarrow> int \<Rightarrow> recipient_row \<Rightarrow> run \<Rightarrow> step" where
  "process_row w delay i row r =
     (if config_index r \<ge> length (email_configs w) then Raise IndexError r
      else
        let config = email_configs w ! config_index r in
        case recipient_email_of row of
          Inl e \<Rightarrow> Raise e r
        | Inr recipient_email \<Rightarrow>
            if recipient_email = [] then Next r
            else
              let a = make_attempt (config_index r) config i row recipient_email in
              if attempt_ok w a then
                Next (r\<lparr>shared := (shared r)\<lparr>sent_emails := sent_emails (shared r) + 1,
                                              current_index := i + 1\<rparr>,
                         config_index := (config_index r + 1) mod length (email_configs w),
                         count := count r + 1,
                         trace := trace r @ [Delivered a, Sleep delay]\<rparr>)
              else Next (r\<lparr>trace := trace r @ [Failed a]\<rparr>))"

text \<open>One iteration of the \<open>for\<close> loop, from the check under the lock on.\<close>

definition loop_body :: "world \<Rightarrow> real \<Rightarrow> recipient_row list \<Rightarrow> int \<Rightarrow> run \<Rightarrow> step" where
  "loop_body w delay df i r =
     (let r0 = r\<lparr>shared := controls (control w i) (shared r)\<rparr> in
      if stop_sending (shared r0)
      then Break (r0\<lparr>trace := trace r0 @ [Log_info ''Email sending stopped.'']\<rparr>)
      else
        case wait_while_paused (shared r0) of
          None \<Rightarrow> Hang
        | Some s \<Rightarrow>
            (case iloc df i of
               Inl e \<Rightarrow> Raise e r0
             | Inr row \<Rightarrow> process_row w delay i row r0))"

text \<open>
  The \<open>for\<close> loop over the positions \<open>range\<close> gave it. \<open>None\<close> is a run that never
  returns; otherwise the result says whether an exception left the function.
\<close>

fun dispatch_loop ::
  "world \<Rightarrow> real \<Rightarrow> recipient_row list \<Rightarrow> int list \<Rightarrow> run \<Rightarrow> (py_error option \<times> run) option" where
  "dispatch_loop w delay df [] r = Some (None, r)"
| "dispatch_loop w delay df (i # rest) r =
     (case loop_body w delay df i r of
        Hang \<Rightarrow> None
      | Break r' \<Rightarrow> Some (None, r')
      | Raise e r' \<Rightarrow> Some (Some e, r')
      | Next r' \<Rightarrow> dispatch_loop w delay df rest r')"

text \<open>Lines 119 to 123.\<close>

definition adjust_limits :: "int \<Rightarrow> int \<Rightarrow> int \<Rightarrow> int \<times> int" where
  "adjust_limits n min_limit max_limit =
     (let lo = max 1 min_limit; hi = min n max_limit
      in if lo > hi then (hi, lo) else (lo, hi))"

text \<open>
  Lines 106 to 130: the function returns at once with a log line, or it sets the totals
  and enters the loop with the rows, the upper bound of \<open>range\<close> and its own variables.
\<close>

definition begin_job ::
  "world \<Rightarrow> excel \<Rightarrow> int \<Rightarrow> int \<Rightarrow> job_state \<Rightarrow> event + (recipient_row list \<times> int \<times> run)" where
  "begin_job w excel_file min_limit max_limit s =
     (if email_configs w = [] then Inl (Log_error ''No email configurations found.'')
      else
        case excel_file of
          Unreadable \<Rightarrow> Inl (Log_error ''Failed to read Excel file'')
        | Sheet df \<Rightarrow>
            let (lo, hi) = adjust_limits (int (length df)) min_limit max_limit
            in Inr (df, hi,
                 \<lparr>shared = s\<lparr>total_emails := hi - lo + 1, sent_emails := 0\<rparr>,
                  config_index = 0, count = 0,
                  trace = (if max 1 min_limit > min (int (length df)) max_limit
                           then [Log_warning ''min_limit > max_limit, adjusting values'']
                           else [])\<rparr>))"

definition loop_range :: "job_state \<Rightarrow> int \<Rightarrow> int list" where
  "loop_range s hi = [current_index s .. hi - 1]"

definition finish :: "py_error option \<times> run \<Rightarrow> py_error option \<times> run" where
  "finish res =
     (case res of
        (None, r) \<Rightarrow> (None, r\<lparr>trace := trace r @ [Finished (count r)]\<rparr>)
      | (Some e, r) \<Rightarrow> (Some e, r))"

definition send_bulk_emails ::
  "world \<Rightarrow> excel \<Rightarrow> real \<Rightarrow> int \<Rightarrow> int \<Rightarrow> job_state \<Rightarrow> (py_error option \<times> run) option" where
  "send_bulk_emails w excel_file delay min_limit max_limit s =
     (case begin_job w excel_file min_limit max_limit s of
        Inl e \<Rightarrow> Some (None, \<lparr>shared = s, config_index = 0, count = 0, trace = [e]\<rparr>)
      | Inr (df, hi, r) \<Rightarrow>
          map_option finish (dispatch_loop w delay df (loop_range (shared r) hi) r))"

section \<open>The start route (lines 236 to 269, method POST)\<close>

text \<open>
  The form as the handler reads it: a number is \<open>None\<close> when \<open>float\<close> or \<open>int\<close> raises on
  its text, the file is \<open>None\<close> when the request carries none. Every exception in the
  handler ends in the answer with status 500.
\<close>

record start_form =
  form_delay :: "real option"
  form_min_limit :: "int option"
  form_max_limit :: "int option"
  form_excel :: "excel option"

datatype response = Send_page bool | Error_500

record started =
  answer :: response
  handler_log :: "event list"
  state_after :: job_state
  thread :: "(excel \<times> real \<times> int \<times> int) option"

definition send_email :: "start_form \<Rightarrow> bool \<Rightarrow> job_state \<Rightarrow> started" where
  "send_email form alive s =
     (case (form_delay form, form_min_limit form, form_max_limit form, form_excel form) of
        (Some delay, Some min_limit, Some max_limit, Some excel_file) \<Rightarrow>
          if alive
          then \<lparr>answer = Send_page True, handler_log = [Log_info ''Already sending emails.''],
                state_after = s, thread = None\<rparr>
          else \<lparr>answer = Send_page True, handler_log = [],
                state_after = s\<lparr>paused := False, stop_sending := False,
                                 current_index := min_limit - 1,
                                 total_emails := 0, sent_emails := 0\<rparr>,
                thread = Some (excel_file, delay, min_limit, max_limit)\<rparr>
      | _ \<Rightarrow> \<lparr>answer = Error_500, handler_log = [Log_error ''Error''],
               state_after = s, thread = None\<rparr>)"

text \<open>
  A start request together with the thread it starts, run to its end: the answer of the
  handler, and what the thread leaves behind (\<open>None\<close> when it never returns).
\<close>

definition start_job ::
  "world \<Rightarrow> start_form \<Rightarrow> bool \<Rightarrow> job_state \<Rightarrow> response \<times> (py_error option \<times> run) option" where
  "start_job w form alive s =
     (let st = send_email form alive s in
      case thread st of
        None \<Rightarrow> (answer st,
                  Some (None, \<lparr>shared = state_after st, config_index = 0, count = 0,
                               trace = handler_log st\<rparr>))
      | Some (excel_file, delay, min_limit, max_limit) \<Rightarrow>
          (answer st, send_bulk_emails w excel_file delay min_limit max_limit (state_after st)))"

section \<open>Auxiliary notions and sample inputs\<close>

text \<open>A form on which none of the conversions of lines 243 to 249 raises.\<close>

definition well_formed :: "start_form \<Rightarrow> bool" where
  "well_formed form \<longleftrightarrow>
     form_delay form \<noteq> None \<and> form_min_limit form \<noteq> None \<and>
     form_max_limit form \<noteq> None \<and> form_excel form \<noteq> None"

definition example_config :: email_config where
  "example_config =
     \<lparr>sender_email = lit ''a@x.org'', smtp_server = lit ''mx'', smtp_port = 25,
      sender_name = None, sender_password = None\<rparr>"

definition example_row :: recipient_row where
  "example_row =
     \<lparr>col_email = Some (Str (lit ''b@y.org'')), col_first_name = None, col_last_name = None,
      col_company_name = None, col_subject = None, col_body = None\<rparr>"

definition blank_row :: recipient_row where
  "blank_row = example_row\<lparr>col_email := Some (Str (lit '' ''))\<rparr>"

definition quiet_world :: world where
  "quiet_world =
     \<lparr>email_configs = [example_config], attempt_ok = (\<lambda>a. True), control = (\<lambda>i. [])\<rparr>"

definition example_form :: start_form where
  "example_form =
     \<lparr>form_delay = Some 5, form_min_limit = Some 1, form_max_limit = Some 1,
      form_excel = Some (Sheet [example_row])\<rparr>"

definition failing_world :: world where
  "failing_world = quiet_world\<lparr>attempt_ok := (\<lambda>a. False)\<rparr>"

definition unconfigured_world :: world where
  "unconfigured_world = quiet_world\<lparr>email_configs := []\<rparr>"

definition pausing_world :: world where
  "pausing_world =
     quiet_world\<lparr>control := (\<lambda>i. if i = 0 then [Pause] else [Resume, Stop])\<rparr>"

definition example_attempt :: "int \<Rightarrow> attempt" where
  "example_attempt i = make_attempt 0 example_config i example_row (lit ''b@y.org'')"

definition used_state :: job_state where
  "used_state = initial_state\<lparr>current_index := 7, total_emails := 9, sent_emails := 3\<rparr>"

text \<open>
  Reading a trace: the completed deliveries, the configuration each of them used, and
  the rotation discipline, which asks of every attempt that it used the configuration
  numbered by the deliveries completed before it, counted from \<open>k\<close>, modulo \<open>n\<close>.
\<close>

fun delivered :: "event \<Rightarrow> bool" where
  "delivered (Delivered a) = True"
| "delivered e = False"

definition deliveries :: "event list \<Rightarrow> nat" where
  "deliveries tr = length (filter delivered tr)"

fun delivered_configs :: "event list \<Rightarrow> nat list" where
  "delivered_configs [] = []"
| "delivered_configs (Delivered a # es) = att_config a # delivered_configs es"
| "delivered_configs (e # es) = delivered_configs es"

fun rotation_ok :: "nat \<Rightarrow> nat \<Rightarrow> event list \<Rightarrow> bool" where
  "rotation_ok n k [] = True"
| "rotation_ok n k (Delivered a # es) = (att_config a = k mod n \<and> rotation_ok n (Suc k) es)"
| "rotation_ok n k (Failed a # es) = (att_config a = k mod n \<and> rotation_ok n k es)"
| "rotation_ok n k (e # es) = rotation_ok n k es"

definition rotating :: "nat \<Rightarrow> run \<Rightarrow> bool" where
  "rotating n r \<longleftrightarrow> config_index r = deliveries (trace r) mod n \<and> rotation_ok n 0 (trace r)"

definition second_config :: email_config where
  "second_config = example_config\<lparr>sender_email := lit ''c@x.org''\<rparr>"

definition first_fails_world :: world where
  "first_fails_world =
     \<lparr>email_configs = [example_config, second_config],
      attempt_ok = (\<lambda>a. att_row a \<noteq> 0), control = (\<lambda>i. [])\<rparr>"

definition rotating_world :: world where
  "rotating_world = quiet_world\<lparr>email_configs := [example_config, second_config]\<rparr>"

definition two_rows_form :: start_form where
  "two_rows_form =
     \<lparr>form_delay = Some 5, form_min_limit = Some 1, form_max_limit = Some 2,
      form_excel = Some (Sheet [example_row, example_row])\<rparr>"

definition rotating_result :: run where
  "rotating_result =
     \<lparr>shared = initial_state\<lparr>current_index := 3, total_emails := 3, sent_emails := 3\<rparr>,
      config_index = 1, count = 3,
      trace = [Delivered (example_attempt 0), Sleep 5,
               Delivered (make_attempt 1 second_config 1 example_row (lit ''b@y.org'')),
               Sleep 5,
               Delivered (example_attempt 2), Sleep 5, Finished 3]\<rparr>"

fun attempted_configs :: "event list \<Rightarrow> nat list" where
  "attempted_configs [] = []"
| "attempted_configs (Delivered a # es) = att_config a # attempted_configs es"
| "attempted_configs (Failed a # es) = att_config a # attempted_configs es"
| "attempted_configs (e # es) = attempted_configs es"

text \<open>
  The positions of the normalized window: the 1-based limits that \<open>total_emails\<close> is
  computed from, read as positions of rows.
\<close>

definition normalized_window :: "int \<Rightarrow> int \<Rightarrow> int \<Rightarrow> int list" where
  "normalized_window n min_limit max_limit =
     (case adjust_limits n min_limit max_limit of (lo, hi) \<Rightarrow> [lo - 1 .. hi - 1])"

text \<open>
  The positions the loop of a job visits when the start route has started it on a sheet
  with the given limits: \<open>range(current_index, max_limit)\<close> of line 132.
\<close>

definition job_positions ::
  "world \<Rightarrow> real \<Rightarrow> recipient_row list \<Rightarrow> int \<Rightarrow> int \<Rightarrow> job_state \<Rightarrow> int list" where
  "job_positions w delay df min_limit max_limit s =
     (let st = send_email \<lparr>form_delay = Some delay, form_min_limit = Some min_limit,
                           form_max_limit = Some max_limit, form_excel = Some (Sheet df)\<rparr>
                 False s
      in case begin_job w (Sheet df) min_limit max_limit (state_after st) of
           Inl e \<Rightarrow> []
         | Inr (df', hi, r) \<Rightarrow> loop_range (shared r) hi)"

definition fresh_run :: run where
  "fresh_run = \<lparr>shared = initial_state, config_index = 0, count = 0, trace = []\<rparr>"

text \<open>The opening brace, with which each placeholder of the templates begins.\<close>

definition brace :: nat where
  "brace = 123"

definition named_config :: email_config where
  "named_config = example_config\<lparr>sender_name := Some (lit ''Bob'')\<rparr>"

definition template_row :: recipient_row where
  "template_row =
     example_row\<lparr>col_subject := Some (Str (lit ''{sender_name}'')),
                  col_body := Some (Str (lit ''{sender_name}''))\<rparr>"

text \<open>
  Templates in which every opening brace is closed before the next one opens, as a
  sequence of pieces: text without an opening brace, and names between braces.
\<close>

definition close_brace :: nat where
  "close_brace = 125"

datatype segment = Text pystr | Placeholder pystr

fun flatten :: "segment list \<Rightarrow> pystr" where
  "flatten [] = []"
| "flatten (Text s # segs) = s @ flatten segs"
| "flatten (Placeholder n # segs) = brace # n @ close_brace # flatten segs"

fun plain :: "segment \<Rightarrow> bool" where
  "plain (Text s) \<longleftrightarrow> brace \<notin> set s"
| "plain (Placeholder n) \<longleftrightarrow> brace \<notin> set n \<and> close_brace \<notin> set n"

text \<open>
  Substitution as the specification words it: each placeholder whose name is recognized
  is replaced by the value of its field, every other piece is left as it is. In a
  subject the recognized names are three, in a body four.
\<close>

fun spec_substitute :: "(pystr \<Rightarrow> pystr option) \<Rightarrow> segment list \<Rightarrow> pystr" where
  "spec_substitute fld [] = []"
| "spec_substitute fld (Text s # segs) = s @ spec_substitute fld segs"
| "spec_substitute fld (Placeholder n # segs) =
     (case fld n of Some v \<Rightarrow> v | None \<Rightarrow> brace # n @ [close_brace]) @
     spec_substitute fld segs"

definition subject_fields :: "pystr \<Rightarrow> pystr \<Rightarrow> pystr \<Rightarrow> pystr \<Rightarrow> pystr option" where
  "subject_fields first_name last_name company_name n =
     (if n = lit ''first_name'' then Some first_name
      else if n = lit ''last_name'' then Some last_name
      else if n = lit ''company_name'' then Some company_name
      else None)"

definition body_fields :: "pystr \<Rightarrow> pystr \<Rightarrow> pystr \<Rightarrow> pystr \<Rightarrow> pystr \<Rightarrow> pystr option" where
  "body_fields first_name last_name company_name sender n =
     (if n = lit ''sender_name'' then Some sender
      else subject_fields first_name last_name company_name n)"

text \<open>What one \<open>str.replace\<close> of a placeholder does to a piece.\<close>

fun replace_placeholder :: "pystr \<Rightarrow> pystr \<Rightarrow> segment \<Rightarrow> segment" where
  "replace_placeholder nm v (Text s) = Text s"
| "replace_placeholder nm v (Placeholder n) = (if n = nm then Text v else Placeholder n)"

text \<open>
  Lines 147 and 164 to 171 for any value the stored file may hold under \<open>sender_name\<close>:
  the key absent, a string, or another JSON value such as \<open>null\<close>, which \<open>str.replace\<close>
  at line 167 refuses. The record \<open>email_config\<close> covers the first two.
\<close>

definition render_body :: "pystr \<Rightarrow> pystr \<Rightarrow> pystr \<Rightarrow> cell option \<Rightarrow> pystr \<Rightarrow> py_error + pystr" where
  "render_body first_name last_name company_name sender body =
     (case sender of
        None \<Rightarrow> Inr (html_content (personalize_body first_name last_name company_name [] body))
      | Some (Str s) \<Rightarrow>
          Inr (html_content (personalize_body first_name last_name company_name s body))
      | Some (NonStr t) \<Rightarrow> Inl TypeError)"

definition greeting :: "segment list" where
  "greeting =
     [Text (lit ''Hi ''), Placeholder (lit ''first_name''), Text (lit '' ''),
      Placeholder (lit ''x''), Text (lit '' from ''), Placeholder (lit ''sender_name'')]"

section \<open>Basic facts\<close>

lemma control_route_counters:
  "current_index (control_route c s) = current_index s"
  "total_emails (control_route c s) = total_emails s"
  "sent_emails (control_route c s) = sent_emails s"
  by (cases c; simp add: pause_sending_def resume_sending_def stop_sending_emails_def)+

lemma controls_counters:
  "current_index (controls cs s) = current_index s \<and>
   total_emails (controls cs s) = total_emails s \<and>
   sent_emails (controls cs s) = sent_emails s"
  unfolding controls_def
  by (induction cs arbitrary: s) (simp_all add: control_route_counters)

lemma controls_Nil: "controls [] s = s"
  by (simp add: controls_def)

lemma wait_running: "\<not> paused s \<Longrightarrow> wait_while_paused s = Some s"
  by (subst wait_while_paused.simps) simp

lemma wait_returns_unpaused: "wait_while_paused s = Some t \<Longrightarrow> \<not> paused s"
  by (rule wait_while_paused.raw_induct[where P = "\<lambda>s t. \<not> paused s"])
     (auto split: if_splits)

lemma wait_paused: "paused s \<Longrightarrow> wait_while_paused s = None"
  using wait_returns_unpaused by (cases "wait_while_paused s") auto

lemma loop_body_running:
  assumes "\<not> stop_sending (controls (control w i) (shared r))"
    and "\<not> paused (controls (control w i) (shared r))"
    and "iloc df i = Inr row"
  shows "loop_body w delay df i r =
           process_row w delay i row (r\<lparr>shared := controls (control w i) (shared r)\<rparr>)"
  using assms by (simp add: loop_body_def Let_def wait_running)

lemma loop_body_paused:
  assumes "\<not> stop_sending (controls (control w i) (shared r))"
    and "paused (controls (control w i) (shared r))"
  shows "loop_body w delay df i r = Hang"
  using assms by (simp add: loop_body_def Let_def wait_paused)

lemma loop_body_stopped:
  assumes "stop_sending (controls (control w i) (shared r))"
  shows "loop_body w delay df i r =
           Break (r\<lparr>shared := controls (control w i) (shared r),
                    trace := trace r @ [Log_info ''Email sending stopped.'']\<rparr>)"
  using assms by (simp add: loop_body_def Let_def)

lemma process_row_skip:
  assumes "config_index r < length (email_configs w)"
    and "recipient_email_of row = Inr []"
  shows "process_row w delay i row r = Next r"
  using assms by (simp add: process_row_def)

lemma process_row_attempt:
  assumes "config_index r < length (email_configs w)"
    and "recipient_email_of row = Inr e" and "e \<noteq> []"
  shows "process_row w delay i row r =
     (let a = make_attempt (config_index r) (email_configs w ! config_index r) i row e in
      if attempt_ok w a
      then Next (r\<lparr>shared := (shared r)\<lparr>sent_emails := sent_emails (shared r) + 1,
                                          current_index := i + 1\<rparr>,
                    config_index := (config_index r + 1) mod length (email_configs w),
                    count := count r + 1,
                    trace := trace r @ [Delivered a, Sleep delay]\<rparr>)
      else Next (r\<lparr>trace := trace r @ [Failed a]\<rparr>))"
  using assms by (simp add: process_row_def Let_def)

section \<open>A second start while a job runs\<close>

text \<open>
  C6. When the sending thread is alive, the start route leaves every field of the job
  state as it was and starts no thread; for a form that parses, it answers with the
  sending page and logs that a job is already being sent.
\<close>

theorem start_while_running_rejected:
  "state_after (send_email form True s) = s \<and> thread (send_email form True s) = None \<and>
   (well_formed form \<longrightarrow>
      answer (send_email form True s) = Send_page True \<and>
      handler_log (send_email form True s) = [Log_info ''Already sending emails.''])"
  by (auto simp: send_email_def well_formed_def split: option.splits)

theorem start_while_running_rejected_witness:
  "well_formed example_form \<and>
   state_after (send_email example_form True initial_state) = initial_state \<and>
   thread (send_email example_form True initial_state) = None \<and>
   answer (send_email example_form True initial_state) = Send_page True \<and>
   handler_log (send_email example_form True initial_state) =
     [Log_info ''Already sending emails.'']"
  using start_while_running_rejected [of example_form initial_state]
  by (simp add: well_formed_def example_form_def)

section \<open>The window of a job\<close>

text \<open>
  C8. With configurations present and a readable sheet of N rows, the engine clamps
  the lower limit to at least 1 and the upper limit to at most N, swaps the two when
  the lower one is then the greater (logging a warning and going on), and sets
  \<open>total_emails\<close> to upper - lower + 1; the limits 50 and 10 on 100 rows become 10 and
  50, with a total of 41.
\<close>

theorem window_normalization:
  assumes "email_configs w \<noteq> []"
  shows "\<exists>lo hi r. begin_job w (Sheet df) min_limit max_limit s = Inr (df, hi, r) \<and>
           (lo, hi) = (if max 1 min_limit > min (int (length df)) max_limit
                       then (min (int (length df)) max_limit, max 1 min_limit)
                       else (max 1 min_limit, min (int (length df)) max_limit)) \<and>
           lo \<le> hi \<and>
           total_emails (shared r) = hi - lo + 1 \<and>
           (max 1 min_limit > min (int (length df)) max_limit \<longrightarrow>
              trace r = [Log_warning ''min_limit > max_limit, adjusting values'']) \<and>
           adjust_limits 100 50 10 = (10, 50)"
  using assms by (auto simp: begin_job_def adjust_limits_def Let_def)

theorem window_normalization_witness:
  "email_configs quiet_world \<noteq> [] \<and>
   begin_job quiet_world (Sheet (replicate 100 example_row)) 50 10 initial_state =
     Inr (replicate 100 example_row, 50,
          \<lparr>shared = initial_state\<lparr>total_emails := 41, sent_emails := 0\<rparr>,
           config_index = 0, count = 0,
           trace = [Log_warning ''min_limit > max_limit, adjusting values'']\<rparr>)"
proof -
  have c: "email_configs quiet_world \<noteq> []" by (simp add: quiet_world_def)
  from window_normalization [OF c, of "replicate 100 example_row" 50 10 initial_state]
  show ?thesis using c by (auto simp: begin_job_def adjust_limits_def)
qed

section \<open>Sample runs\<close>

lemma example_email: "recipient_email_of example_row = Inr (lit ''b@y.org'')"
  by (simp add: recipient_email_of_def example_row_def strip_def lit_def isspace_def)

lemma blank_email: "recipient_email_of blank_row = Inr []"
  by (simp add: recipient_email_of_def blank_row_def example_row_def strip_def lit_def
        isspace_def)

lemma example_email_nonempty: "lit ''b@y.org'' \<noteq> []"
  by (simp add: lit_def)

lemmas job_defs =
  start_job_def send_email_def send_bulk_emails_def begin_job_def adjust_limits_def
  loop_range_def finish_def loop_body_def process_row_def iloc_def controls_def
  wait_running wait_paused Let_def upto.simps example_form_def initial_state_def
  quiet_world_def example_email blank_email example_email_nonempty

section \<open>Rotation of the configurations\<close>

lemma deliveries_append: "deliveries (tr @ es) = deliveries tr + deliveries es"
  by (simp add: deliveries_def)

lemma rotation_ok_append:
  "rotation_ok n k (tr @ es) \<longleftrightarrow> rotation_ok n k tr \<and> rotation_ok n (k + deliveries tr) es"
  by (induction n k tr rule: rotation_ok.induct) (simp_all add: deliveries_def)

lemma att_config_make_attempt: "att_config (make_attempt k c i row e) = k"
  by (simp add: make_attempt_def Let_def)

lemma att_row_make_attempt: "att_row (make_attempt k c i row e) = i"
  by (simp add: make_attempt_def Let_def)

lemma process_row_rotating:
  assumes "rotating (length (email_configs w)) r"
    and "process_row w delay i row r = st" and "st \<noteq> Hang"
  shows "rotating (length (email_configs w)) (run_of st)"
proof (cases "config_index r < length (email_configs w)")
  case False
  with assms show ?thesis by (auto simp: process_row_def)
next
  case cfg: True
  show ?thesis
  proof (cases "recipient_email_of row")
    case (Inl e)
    with assms cfg show ?thesis by (auto simp: process_row_def)
  next
    case (Inr e)
    show ?thesis
    proof (cases "e = []")
      case True
      with assms cfg Inr show ?thesis by (auto simp: process_row_def)
    next
      case False
      from assms(1) have ci: "config_index r = deliveries (trace r) mod length (email_configs w)"
        and ok: "rotation_ok (length (email_configs w)) 0 (trace r)"
        by (simp_all add: rotating_def)
      from assms(2) show ?thesis
        unfolding process_row_attempt [OF cfg Inr False] Let_def
        using ci ok
        by (auto simp: rotating_def rotation_ok_append deliveries_append deliveries_def
              att_config_make_attempt mod_Suc_eq split: if_splits)
    qed
  qed
qed

lemma loop_body_rotating:
  assumes "rotating (length (email_configs w)) r"
    and "loop_body w delay df i r = st" and "st \<noteq> Hang"
  shows "rotating (length (email_configs w)) (run_of st)"
proof -
  let ?r0 = "r\<lparr>shared := controls (control w i) (shared r)\<rparr>"
  have r0: "rotating (length (email_configs w)) ?r0"
    using assms(1) by (simp add: rotating_def)
  show ?thesis
  proof (cases "stop_sending (shared ?r0)")
    case True
    with assms r0 show ?thesis
      by (auto simp: loop_body_def Let_def rotating_def rotation_ok_append deliveries_append deliveries_def)
  next
    case ns: False
    show ?thesis
    proof (cases "wait_while_paused (shared ?r0)")
      case None
      with assms ns show ?thesis by (simp add: loop_body_def Let_def)
    next
      case (Some s')
      show ?thesis
      proof (cases "iloc df i")
        case (Inl e)
        with assms ns Some r0 show ?thesis by (auto simp: loop_body_def Let_def)
      next
        case (Inr row)
        with assms ns Some have "process_row w delay i row ?r0 = st"
          by (simp add: loop_body_def Let_def)
        from process_row_rotating [OF r0 this assms(3)] show ?thesis .
      qed
    qed
  qed
qed

lemma dispatch_loop_rotating:
  assumes "rotating (length (email_configs w)) r"
    and "dispatch_loop w delay df is r = Some (err, r')"
  shows "rotating (length (email_configs w)) r'"
  using assms
proof (induction "is" arbitrary: r)
  case Nil
  then show ?case by simp
next
  case (Cons i rest)
  show ?case
  proof (cases "loop_body w delay df i r")
    case Hang
    with Cons.prems show ?thesis by simp
  next
    case (Next r1)
    from loop_body_rotating [OF Cons.prems(1) Next] have "rotating (length (email_configs w)) r1" by simp
    moreover from Cons.prems(2) Next have "dispatch_loop w delay df rest r1 = Some (err, r')" by simp
    ultimately show ?thesis by (rule Cons.IH)
  next
    case (Break r1)
    from loop_body_rotating [OF Cons.prems(1) Break] Cons.prems(2) Break show ?thesis by simp
  next
    case (Raise e r1)
    from loop_body_rotating [OF Cons.prems(1) Raise] Cons.prems(2) Raise show ?thesis by simp
  qed
qed

lemma send_bulk_emails_rotating:
  assumes "send_bulk_emails w x delay mn mx s = Some (err, r)"
  shows "rotation_ok (length (email_configs w)) 0 (trace r)"
proof (cases "begin_job w x mn mx s")
  case (Inl e)
  with assms show ?thesis
    by (auto simp: send_bulk_emails_def begin_job_def Let_def
          split: if_splits excel.splits prod.splits)
next
  case (Inr t)
  then obtain df hi r0 where t: "t = (df, hi, r0)" by (cases t) auto
  from assms Inr t obtain res where
    loop: "dispatch_loop w delay df (loop_range (shared r0) hi) r0 = Some res"
    and fin: "finish res = (err, r)"
    by (auto simp: send_bulk_emails_def)
  obtain e1 r1 where res: "res = (e1, r1)" by (cases res)
  from Inr t have "rotating (length (email_configs w)) r0"
    by (auto simp: begin_job_def rotating_def deliveries_def Let_def split: if_splits excel.splits prod.splits)
  from dispatch_loop_rotating [OF this loop [unfolded res]]
  have "rotating (length (email_configs w)) r1" .
  with fin res show ?thesis
    by (cases e1) (auto simp: finish_def rotating_def rotation_ok_append)
qed

lemma rotation_ok_tail:
  "rotation_ok n k (e # es) \<Longrightarrow> rotation_ok n (k + deliveries [e]) es"
  by (cases e) (simp_all add: deliveries_def)

lemma rotation_ok_head:
  "rotation_ok n k (e # es) \<Longrightarrow> e = Delivered a \<or> e = Failed a \<Longrightarrow> att_config a = k mod n"
  by auto

lemma rotation_ok_nth:
  assumes "rotation_ok n k tr" and "j < length tr"
    and "tr ! j = Delivered a \<or> tr ! j = Failed a"
  shows "att_config a = (k + deliveries (take j tr)) mod n"
  using assms
proof (induction tr arbitrary: k j)
  case Nil
  then show ?case by simp
next
  case (Cons e es)
  show ?case
  proof (cases j)
    case 0
    with Cons.prems(3) have "e = Delivered a \<or> e = Failed a" by simp
    from rotation_ok_head [OF Cons.prems(1) this] 0 show ?thesis
      by (simp add: deliveries_def)
  next
    case (Suc i)
    from Cons.prems(2,3) Suc have "i < length es" and "es ! i = Delivered a \<or> es ! i = Failed a"
      by simp_all
    from Cons.IH [OF rotation_ok_tail [OF Cons.prems(1)] this]
    have "att_config a = (k + deliveries [e] + deliveries (take i es)) mod n" .
    moreover have "deliveries (take j (e # es)) = deliveries [e] + deliveries (take i es)"
      using Suc by (simp add: deliveries_def)
    ultimately show ?thesis by (simp add: add.assoc)
  qed
qed

lemma rotation_ok_delivered:
  "rotation_ok n k tr \<Longrightarrow>
   delivered_configs tr = map (\<lambda>j. j mod n) [k ..< k + deliveries tr]"
proof (induction n k tr rule: rotation_ok.induct)
  case (2 n k a es)
  have "[k ..< k + Suc (deliveries es)] = k # [Suc k ..< Suc k + deliveries es]"
    by (subst upt_rec) simp
  moreover have "deliveries (Delivered a # es) = Suc (deliveries es)"
    by (simp add: deliveries_def)
  ultimately show ?case using 2 by simp
qed (simp_all add: deliveries_def)

lemma count_round_robin:
  assumes "c < n"
  shows "count_list (map (\<lambda>j. j mod n) [0 ..< k]) c = k div n + (if c < k mod n then 1 else 0)"
  using assms
proof (induction k)
  case 0
  then show ?case by simp
next
  case (Suc k)
  then show ?case
    by (auto simp: div_Suc mod_Suc split: if_splits)
qed

lemma ceil_div:
  fixes k n :: nat
  assumes "0 < n" and "0 < k mod n"
  shows "(k + n - 1) div n = Suc (k div n)"
proof -
  define q m where "q = k div n" and "m = k mod n"
  have k: "k = n * q + m" by (simp add: q_def m_def)
  have m: "m < n" "0 < m" using assms by (simp_all add: m_def)
  have "(n * q + m + n - 1) div n = Suc q"
    by (rule div_nat_eqI) (use m in \<open>simp_all add: algebra_simps\<close>)
  also have "n * q + m = k" by (simp add: k)
  finally show ?thesis by (simp add: q_def)
qed

text \<open>
  C2, as the code has it. The rotation counter starts at 0 and moves on by one, modulo
  the number n of configurations, after each completed delivery and only then (a failed
  attempt leaves it where it is). So in every run that returns, each attempt uses the
  configuration numbered by the deliveries completed before it modulo n; the completed
  deliveries, k of them, use the configurations 0, 1, ..., k - 1 modulo n in this order;
  and each configuration is used by k div n of them or by that number rounded up.
\<close>

theorem rotation_advances_on_delivery:
  assumes "send_bulk_emails w excel_file delay min_limit max_limit s = Some (err, r)"
    and "n = length (email_configs w)" and "k = deliveries (trace r)"
  shows "(\<forall>j < length (trace r). \<forall>a.
            trace r ! j = Delivered a \<or> trace r ! j = Failed a \<longrightarrow>
            att_config a = deliveries (take j (trace r)) mod n) \<and>
         delivered_configs (trace r) = map (\<lambda>j. j mod n) [0 ..< k] \<and>
         (\<forall>c < n. count_list (delivered_configs (trace r)) c = k div n \<or>
                  count_list (delivered_configs (trace r)) c = (k + n - 1) div n)"
proof -
  have ok: "rotation_ok n 0 (trace r)"
    using send_bulk_emails_rotating [OF assms(1)] assms(2) by simp
  have a: "\<forall>j < length (trace r). \<forall>a.
            trace r ! j = Delivered a \<or> trace r ! j = Failed a \<longrightarrow>
            att_config a = deliveries (take j (trace r)) mod n"
    using rotation_ok_nth [OF ok] by auto
  have b: "delivered_configs (trace r) = map (\<lambda>j. j mod n) [0 ..< k]"
    using rotation_ok_delivered [OF ok] assms(3) by simp
  have c: "count_list (delivered_configs (trace r)) c = k div n \<or>
           count_list (delivered_configs (trace r)) c = (k + n - 1) div n" if "c < n" for c
  proof -
    have cnt: "count_list (delivered_configs (trace r)) c =
                 k div n + (if c < k mod n then 1 else 0)"
      unfolding b using that by (rule count_round_robin)
    show ?thesis
    proof (cases "c < k mod n")
      case False
      with cnt show ?thesis by simp
    next
      case True
      then have "(k + n - 1) div n = Suc (k div n)"
        using that by (intro ceil_div) simp_all
      with cnt True show ?thesis by simp
    qed
  qed
  from a b c show ?thesis by blast
qed

lemma rotating_run:
  "send_bulk_emails rotating_world (Sheet [example_row, example_row, example_row]) 5 1 3
     initial_state = Some (None, rotating_result)"
  by (simp add: job_defs rotating_world_def example_attempt_def rotating_result_def)

theorem rotation_advances_on_delivery_witness:
  "send_bulk_emails rotating_world (Sheet [example_row, example_row, example_row]) 5 1 3
     initial_state = Some (None, rotating_result) \<and>
   length (email_configs rotating_world) = 2 \<and>
   deliveries (trace rotating_result) = 3 \<and>
   delivered_configs (trace rotating_result) = [0, 1, 0] \<and>
   count_list (delivered_configs (trace rotating_result)) 0 = (3 + 2 - 1) div 2 \<and>
   count_list (delivered_configs (trace rotating_result)) 1 = 3 div 2"
proof -
  have n: "(2::nat) = length (email_configs rotating_world)"
    by (simp add: rotating_world_def quiet_world_def)
  have k: "(3::nat) = deliveries (trace rotating_result)"
    by (simp add: deliveries_def rotating_result_def)
  from rotation_advances_on_delivery [OF rotating_run n k]
  have "delivered_configs (trace rotating_result) = map (\<lambda>j. j mod 2) [0 ..< 3]" by simp
  also have "map (\<lambda>j. j mod 2) [0 ..< 3] = [0, 1, 0::nat]" by (simp add: upt_rec)
  finally show ?thesis using rotating_run n k by simp
qed

theorem rotation_counterexample:
  "start_job first_fails_world two_rows_form False initial_state =
     (Send_page True,
      Some (None,
        \<lparr>shared = initial_state\<lparr>current_index := 2, total_emails := 2, sent_emails := 1\<rparr>,
         config_index = 1, count = 1,
         trace = [Failed (example_attempt 0), Delivered (example_attempt 1), Sleep 5,
                  Finished 1]\<rparr>)) \<and>
   attempted_configs [Failed (example_attempt 0), Delivered (example_attempt 1), Sleep 5,
                      Finished 1] = [0, 0] \<and>
   [0, 0] \<noteq> [0 mod 2, 1 mod (2::nat)]"
  by (simp add: job_defs first_fails_world_def two_rows_form_def example_attempt_def
        att_config_make_attempt att_row_make_attempt)

section \<open>The cursor, skipped rows and missing configurations\<close>

text \<open>
  C1, as the code has it. A recipient with an address is attempted once and the loop
  goes on with the next position whatever the outcome; there is no retry. The shared
  cursor \<open>current_index\<close> is written only after a completed delivery, where it becomes
  i + 1 and \<open>sent_emails\<close> grows by one; after a failed attempt both keep their values.
\<close>

theorem cursor_written_on_success_only:
  assumes "\<not> stop_sending (controls (control w i) (shared r))"
    and "\<not> paused (controls (control w i) (shared r))"
    and "iloc df i = Inr row"
    and "recipient_email_of row = Inr e" and "e \<noteq> []"
    and "config_index r < length (email_configs w)"
  shows "\<exists>r' a. loop_body w delay df i r = Next r' \<and>
           a = make_attempt (config_index r) (email_configs w ! config_index r) i row e \<and>
           (if attempt_ok w a
            then current_index (shared r') = i + 1 \<and>
                 sent_emails (shared r') = sent_emails (shared r) + 1 \<and>
                 trace r' = trace r @ [Delivered a, Sleep delay]
            else current_index (shared r') = current_index (shared r) \<and>
                 sent_emails (shared r') = sent_emails (shared r) \<and>
                 trace r' = trace r @ [Failed a]) \<and>
           dispatch_loop w delay df (i # rest) r = dispatch_loop w delay df rest r'"
proof -
  let ?r0 = "r\<lparr>shared := controls (control w i) (shared r)\<rparr>"
  have body: "loop_body w delay df i r = process_row w delay i row ?r0"
    using assms(1-3) by (rule loop_body_running)
  have cfg: "config_index ?r0 < length (email_configs w)"
    using assms(6) by simp
  note row = process_row_attempt [OF cfg assms(4,5), of delay i]
  show ?thesis
    by (cases "attempt_ok w (make_attempt (config_index r) (email_configs w ! config_index r) i row e)")
       (simp_all add: body row Let_def controls_counters)
qed

lemma example_checks:
  "\<not> stop_sending (controls (control failing_world 0) (shared fresh_run))"
  "\<not> paused (controls (control failing_world 0) (shared fresh_run))"
  "iloc [example_row] 0 = Inr example_row"
  "config_index fresh_run < length (email_configs failing_world)"
  "\<not> stop_sending (controls (control quiet_world 0) (shared fresh_run))"
  "\<not> paused (controls (control quiet_world 0) (shared fresh_run))"
  "iloc [blank_row] 0 = Inr blank_row"
  "config_index fresh_run < length (email_configs quiet_world)"
  by (simp_all add: failing_world_def quiet_world_def fresh_run_def controls_def
        initial_state_def iloc_def)

theorem cursor_written_on_success_only_witness:
  "recipient_email_of example_row = Inr (lit ''b@y.org'') \<and> lit ''b@y.org'' \<noteq> [] \<and>
   iloc [example_row] 0 = Inr example_row \<and>
   loop_body failing_world 5 [example_row] 0 fresh_run =
     Next (fresh_run\<lparr>trace := [Failed (example_attempt 0)]\<rparr>) \<and>
   dispatch_loop failing_world 5 [example_row] [0] fresh_run =
     Some (None, fresh_run\<lparr>trace := [Failed (example_attempt 0)]\<rparr>)"
proof -
  from cursor_written_on_success_only [OF example_checks(1,2,3) example_email
      example_email_nonempty example_checks(4), of 5 "[]"]
  obtain r' where
    body: "loop_body failing_world 5 [example_row] 0 fresh_run = Next r'"
    and loop: "dispatch_loop failing_world 5 [example_row] [0] fresh_run =
               dispatch_loop failing_world 5 [example_row] [] r'"
    by blast
  have "loop_body failing_world 5 [example_row] 0 fresh_run =
          Next (fresh_run\<lparr>trace := [Failed (example_attempt 0)]\<rparr>)"
    by (simp add: job_defs failing_world_def fresh_run_def example_attempt_def)
  with body loop show ?thesis
    using example_email example_email_nonempty example_checks(3) by simp
qed

theorem cursor_counterexample:
  "start_job failing_world example_form False initial_state =
     (Send_page True,
      Some (None, \<lparr>shared = initial_state\<lparr>total_emails := 1\<rparr>, config_index = 0, count = 0,
                   trace = [Failed (example_attempt 0), Finished 0]\<rparr>)) \<and>
   current_index (initial_state\<lparr>total_emails := 1\<rparr>) \<noteq> current_index initial_state + 1"
  by (simp add: job_defs failing_world_def example_attempt_def)

text \<open>
  C4, as the code has it. A row whose address column is absent, or holds a string that
  is empty once stripped, is passed over: no attempt, no pacing sleep, no step of the
  rotation, no change of the counters. The loop goes on with the next position; the
  shared cursor \<open>current_index\<close> keeps its value.
\<close>

theorem empty_email_is_skipped:
  assumes "\<not> stop_sending (controls (control w i) (shared r))"
    and "\<not> paused (controls (control w i) (shared r))"
    and "iloc df i = Inr row"
    and "col_email row = None \<or> (\<exists>t. col_email row = Some (Str t) \<and> strip t = [])"
    and "config_index r < length (email_configs w)"
  shows "loop_body w delay df i r = Next (r\<lparr>shared := controls (control w i) (shared r)\<rparr>) \<and>
         current_index (controls (control w i) (shared r)) = current_index (shared r) \<and>
         sent_emails (controls (control w i) (shared r)) = sent_emails (shared r) \<and>
         dispatch_loop w delay df (i # rest) r =
           dispatch_loop w delay df rest (r\<lparr>shared := controls (control w i) (shared r)\<rparr>)"
proof -
  let ?r0 = "r\<lparr>shared := controls (control w i) (shared r)\<rparr>"
  have body: "loop_body w delay df i r = process_row w delay i row ?r0"
    using assms(1-3) by (rule loop_body_running)
  have e: "recipient_email_of row = Inr []"
    using assms(4) by (auto simp: recipient_email_of_def strip_def)
  have cfg: "config_index ?r0 < length (email_configs w)"
    using assms(5) by simp
  show ?thesis
    by (simp add: body process_row_skip [OF cfg e] controls_counters)
qed

theorem empty_email_is_skipped_witness:
  "col_email blank_row = Some (Str (lit '' '')) \<and> strip (lit '' '') = [] \<and>
   iloc [blank_row] 0 = Inr blank_row \<and>
   loop_body quiet_world 5 [blank_row] 0 fresh_run = Next fresh_run \<and>
   dispatch_loop quiet_world 5 [blank_row] [0] fresh_run = Some (None, fresh_run)"
proof -
  have c: "col_email blank_row = Some (Str (lit '' ''))" and s: "strip (lit '' '') = []"
    by (simp_all add: blank_row_def strip_def lit_def isspace_def)
  then have h: "col_email blank_row = None \<or> (\<exists>t. col_email blank_row = Some (Str t) \<and> strip t = [])"
    by blast
  have same: "fresh_run\<lparr>shared := controls (control quiet_world 0) (shared fresh_run)\<rparr> = fresh_run"
    by (simp add: quiet_world_def controls_def fresh_run_def)
  from empty_email_is_skipped [OF example_checks(5,6,7) h example_checks(8), of 5 "[]"]
  show ?thesis using c s example_checks(7) by (simp add: same)
qed

theorem skip_counterexample:
  "start_job quiet_world (example_form\<lparr>form_excel := Some (Sheet [blank_row])\<rparr>) False
     initial_state =
     (Send_page True,
      Some (None, \<lparr>shared = initial_state\<lparr>total_emails := 1\<rparr>, config_index = 0, count = 0,
                   trace = [Finished 0]\<rparr>)) \<and>
   current_index (initial_state\<lparr>total_emails := 1\<rparr>) \<noteq> current_index initial_state + 1"
  by (simp add: job_defs)

text \<open>
  C5, as the code has it. Without configurations the engine logs an error and returns
  at once: it makes no attempt and writes no field of the job state. The start route
  does not look at the configurations: it has reset the five fields before the thread
  runs, and it answers with the sending page.
\<close>

theorem no_configurations:
  assumes "email_configs w = []"
  shows "send_bulk_emails w excel_file delay min_limit max_limit s =
           Some (None, \<lparr>shared = s, config_index = 0, count = 0,
                        trace = [Log_error ''No email configurations found.'']\<rparr>) \<and>
         start_job w \<lparr>form_delay = Some delay, form_min_limit = Some min_limit,
                      form_max_limit = Some max_limit, form_excel = Some excel_file\<rparr> False s =
           (Send_page True,
            Some (None, \<lparr>shared = s\<lparr>paused := False, stop_sending := False,
                                    current_index := min_limit - 1,
                                    total_emails := 0, sent_emails := 0\<rparr>,
                         config_index = 0, count = 0,
                         trace = [Log_error ''No email configurations found.'']\<rparr>))"
  using assms by (simp add: start_job_def send_email_def send_bulk_emails_def begin_job_def)

theorem no_configurations_witness:
  "email_configs unconfigured_world = [] \<and>
   send_bulk_emails unconfigured_world (Sheet [example_row]) 5 1 1 used_state =
     Some (None, \<lparr>shared = used_state, config_index = 0, count = 0,
                  trace = [Log_error ''No email configurations found.'']\<rparr>)"
proof -
  have e: "email_configs unconfigured_world = []" by (simp add: unconfigured_world_def)
  from no_configurations [OF e, of "Sheet [example_row]" 5 1 1 used_state] e
  show ?thesis by simp
qed

theorem no_configurations_counterexample:
  "email_configs unconfigured_world = [] \<and>
   start_job unconfigured_world example_form False used_state =
     (Send_page True,
      Some (None, \<lparr>shared = initial_state, config_index = 0, count = 0,
                   trace = [Log_error ''No email configurations found.'']\<rparr>)) \<and>
   initial_state \<noteq> used_state"
  by (simp add: job_defs unconfigured_world_def used_state_def)

text \<open>
  C3. A pause request that arrives before the first check is seen by the engine while
  it holds the lock, and the engine then sleeps and polls inside the lock: the requests
  that would clear the flag or stop the job wait for the same lock, and the run never
  returns.
\<close>

theorem paused_engine_never_returns:
  "control pausing_world 0 = [Pause] \<and>
   start_job pausing_world example_form False initial_state = (Send_page True, None)"
  by (simp add: job_defs pausing_world_def pause_sending_def)

text \<open>
  C7. Started with the limits 0 and 1 on a sheet of one row, the job visits the
  positions -1 and 0, which are both that row, delivers twice, and ends with
  \<open>sent_emails\<close> = 2 above \<open>total_emails\<close> = 1.
\<close>

theorem sent_exceeds_total:
  "start_job quiet_world (example_form\<lparr>form_min_limit := Some 0\<rparr>) False initial_state =
     (Send_page True,
      Some (None,
        \<lparr>shared = initial_state\<lparr>current_index := 1, total_emails := 1, sent_emails := 2\<rparr>,
         config_index = 0, count = 2,
         trace = [Delivered (example_attempt (- 1)), Sleep 5,
                  Delivered (example_attempt 0), Sleep 5, Finished 2]\<rparr>)) \<and>
   total_emails (initial_state\<lparr>current_index := 1, total_emails := 1, sent_emails := 2\<rparr>)
     < sent_emails (initial_state\<lparr>current_index := 1, total_emails := 1, sent_emails := 2\<rparr>)"
  by (simp add: job_defs example_attempt_def)

section \<open>Where the loop starts\<close>

lemma job_positions_eq:
  assumes "email_configs w \<noteq> []" and "adjust_limits (int (length df)) min_limit max_limit = (lo, hi)"
  shows "job_positions w delay df min_limit max_limit s = [min_limit - 1 .. hi - 1]"
  using assms by (simp add: job_positions_def send_email_def begin_job_def loop_range_def)

lemma upto_sets_differ:
  fixes a b c :: int
  assumes "b \<le> c" and "a \<noteq> b"
  shows "set [a - 1 .. c - 1] \<noteq> set [b - 1 .. c - 1]"
proof
  assume eq: "set [a - 1 .. c - 1] = set [b - 1 .. c - 1]"
  from assms(1) have "b - 1 \<in> set [b - 1 .. c - 1]" by simp
  with eq have "b - 1 \<in> set [a - 1 .. c - 1]" by simp
  then have ab: "a \<le> b" by simp
  with assms have "a - 1 \<in> set [a - 1 .. c - 1]" by simp
  with eq have "a - 1 \<in> set [b - 1 .. c - 1]" by simp
  then have "b \<le> a" by simp
  with ab assms(2) show False by simp
qed

text \<open>
  C10, as the code has it. The start route stores the requested lower limit minus 1 as
  the cursor, and the loop runs from there up to the normalized upper limit, exclusive;
  clamping and swapping reach only \<open>total_emails\<close> and that upper bound. When the
  requested lower limit is above the upper one, or below 1 and different from the
  smaller of the row count and the upper limit, the positions visited differ from the
  normalized window; when it is below 1 and equal to that smaller number, the two are
  the same.
\<close>

theorem loop_starts_at_requested_minimum:
  assumes "email_configs w \<noteq> []"
    and "n = int (length df)"
    and "adjust_limits n min_limit max_limit = (lo, hi)"
  shows "job_positions w delay df min_limit max_limit s = [min_limit - 1 .. hi - 1] \<and>
         normalized_window n min_limit max_limit = [lo - 1 .. hi - 1] \<and>
         (\<exists>r. begin_job w (Sheet df) min_limit max_limit
                  (s\<lparr>paused := False, stop_sending := False,
                     current_index := min_limit - 1,
                     total_emails := 0, sent_emails := 0\<rparr>) = Inr (df, hi, r) \<and>
              current_index (shared r) = min_limit - 1 \<and>
              total_emails (shared r) = hi - lo + 1) \<and>
         ((max_limit < min_limit \<or> min_limit < 1) \<and> min n max_limit \<noteq> min_limit \<longrightarrow>
            set (job_positions w delay df min_limit max_limit s) \<noteq>
            set (normalized_window n min_limit max_limit)) \<and>
         (min_limit < 1 \<and> min n max_limit = min_limit \<longrightarrow>
            job_positions w delay df min_limit max_limit s =
            normalized_window n min_limit max_limit)"
proof -
  have pos: "job_positions w delay df min_limit max_limit s = [min_limit - 1 .. hi - 1]"
    using assms by (simp add: job_positions_eq)
  have win: "normalized_window n min_limit max_limit = [lo - 1 .. hi - 1]"
    using assms(3) by (simp add: normalized_window_def)
  have ord: "lo \<le> hi"
    using assms(3) by (auto simp: adjust_limits_def Let_def split: if_splits)
  have differ: "set [min_limit - 1 .. hi - 1] \<noteq> set [lo - 1 .. hi - 1]"
    if "(max_limit < min_limit \<or> min_limit < 1) \<and> min n max_limit \<noteq> min_limit"
  proof -
    from that assms(3) have "min_limit \<noteq> lo"
      by (auto simp: adjust_limits_def Let_def split: if_splits)
    with ord show ?thesis by (intro upto_sets_differ)
  qed
  have same: "lo = min_limit" if "min_limit < 1 \<and> min n max_limit = min_limit"
    using that assms(3) by (auto simp: adjust_limits_def Let_def split: if_splits)
  have start: "\<exists>r. begin_job w (Sheet df) min_limit max_limit
                  (s\<lparr>paused := False, stop_sending := False,
                     current_index := min_limit - 1,
                     total_emails := 0, sent_emails := 0\<rparr>) = Inr (df, hi, r) \<and>
              current_index (shared r) = min_limit - 1 \<and>
              total_emails (shared r) = hi - lo + 1"
    using assms by (simp add: begin_job_def)
  from pos win differ same start show ?thesis by auto
qed

theorem loop_starts_at_requested_minimum_witness:
  "email_configs quiet_world \<noteq> [] \<and> adjust_limits 1 0 1 = (1, 1) \<and> (0::int) < 1 \<and>
   min 1 1 \<noteq> (0::int) \<and>
   job_positions quiet_world 5 [example_row] 0 1 initial_state = [- 1, 0] \<and>
   normalized_window 1 0 1 = [0] \<and>
   set (job_positions quiet_world 5 [example_row] 0 1 initial_state) \<noteq>
     set (normalized_window 1 0 1)"
proof -
  have c: "email_configs quiet_world \<noteq> []" by (simp add: quiet_world_def)
  have n: "(1::int) = int (length [example_row])" by simp
  have a: "adjust_limits 1 0 1 = (1, 1)" by (simp add: adjust_limits_def)
  from loop_starts_at_requested_minimum [OF c n a, of 5 initial_state]
  show ?thesis using c a by (simp add: upto.simps)
qed

theorem loop_positions_counterexample:
  "(0::int) < 1 \<and>
   job_positions quiet_world 5 [example_row] 0 0 initial_state = [- 1, 0] \<and>
   normalized_window 1 0 0 = [- 1, 0]"
  by (simp add: job_positions_def send_email_def begin_job_def loop_range_def
        normalized_window_def adjust_limits_def quiet_world_def upto.simps)

section \<open>Replacement in strings\<close>

lemma str_replace_Nil: "old \<noteq> [] \<Longrightarrow> str_replace old new [] = []"
  by (simp add: str_replace.simps)

lemma str_replace_skip:
  "old \<noteq> [] \<Longrightarrow> \<not> prefix old (x # s) \<Longrightarrow>
   str_replace old new (x # s) = x # str_replace old new s"
  by (subst str_replace.simps) simp

lemma str_replace_hit:
  "old \<noteq> [] \<Longrightarrow> str_replace old new (old @ s) = new @ str_replace old new s"
  by (subst str_replace.simps) (cases old; simp)

lemma str_replace_pass:
  "b \<notin> set v \<Longrightarrow> str_replace (b # t) new (v @ s) = v @ str_replace (b # t) new s"
proof (induction v)
  case Nil
  then show ?case by simp
next
  case (Cons x v)
  then have "\<not> prefix (b # t) (x # v @ s)" by auto
  with Cons show ?case by (simp add: str_replace_skip)
qed

lemma str_replace_absent:
  assumes "old \<noteq> []" and "\<not> sublist old s"
  shows "str_replace old new s = s"
  using assms(2)
proof (induction s)
  case Nil
  with assms(1) show ?case by (simp add: str_replace_Nil)
next
  case (Cons x s)
  have np: "\<not> prefix old (x # s)"
  proof
    assume "prefix old (x # s)"
    then have "sublist old (x # s)" by (rule prefix_imp_sublist)
    with Cons.prems show False by simp
  qed
  from Cons.prems have "\<not> sublist old s"
    by (simp add: sublist_Cons_right)
  with Cons.IH have "str_replace old new s = s" by simp
  with np assms(1) show ?case by (simp add: str_replace_skip)
qed


lemma str_replace_single:
  "str_replace [p] new s = concat (map (\<lambda>c. if c = p then new else [c]) s)"
proof (induction s)
  case Nil
  show ?case by (simp add: str_replace_Nil)
next
  case (Cons x s)
  show ?case
  proof (cases "x = p")
    case True
    have "str_replace [p] new ([p] @ s) = new @ str_replace [p] new s"
      by (rule str_replace_hit) simp
    with True Cons show ?thesis by simp
  next
    case False
    then have "\<not> prefix [p] (x # s)" by simp
    with False Cons show ?thesis by (simp add: str_replace_skip)
  qed
qed

lemma str_replace_single_append:
  "str_replace [p] new (a @ b) = str_replace [p] new a @ str_replace [p] new b"
  by (simp add: str_replace_single)

lemma str_replace_single_clean:
  "p \<notin> set new \<Longrightarrow> p \<notin> set (str_replace [p] new s)"
  by (auto simp: str_replace_single)

lemma str_replace_single_id:
  "p \<notin> set s \<Longrightarrow> str_replace [p] new s = s"
  by (induction s) (auto simp: str_replace_single)

lemma str_replace_pair_append:
  assumes "p \<noteq> q" and "a = [] \<or> last a \<noteq> p \<or> b = [] \<or> hd b \<noteq> q"
  shows "str_replace [p, q] new (a @ b) = str_replace [p, q] new a @ str_replace [p, q] new b"
  using assms(2)
proof (induction a rule: length_induct)
  case (1 a)
  show ?case
  proof (cases a)
    case Nil
    then show ?thesis by (simp add: str_replace_Nil)
  next
    case (Cons x a')
    show ?thesis
    proof (cases "prefix [p, q] a")
      case True
      then obtain a'' where a: "a = [p, q] @ a''" by (auto simp: prefix_def)
      have side: "a'' = [] \<or> last a'' \<noteq> p \<or> b = [] \<or> hd b \<noteq> q"
        using "1.prems" a assms(1) by (cases "a'' = []") auto
      have "length a'' < length a" using a by simp
      with "1.IH" side have ih: "str_replace [p, q] new (a'' @ b) =
          str_replace [p, q] new a'' @ str_replace [p, q] new b" by blast
      have "str_replace [p, q] new (a @ b) = new @ str_replace [p, q] new (a'' @ b)"
        unfolding a using str_replace_hit [of "[p, q]" new "a'' @ b"] by simp
      moreover have "str_replace [p, q] new a = new @ str_replace [p, q] new a''"
        unfolding a using str_replace_hit [of "[p, q]" new a''] by simp
      ultimately show ?thesis using ih by simp
    next
      case False
      have np: "\<not> prefix [p, q] (x # a' @ b)"
      proof (cases a')
        case Nil
        with "1.prems" Cons show ?thesis by (cases b) auto
      next
        case (Cons y a'')
        with False \<open>a = x # a'\<close> show ?thesis by simp
      qed
      have side: "a' = [] \<or> last a' \<noteq> p \<or> b = [] \<or> hd b \<noteq> q"
        using "1.prems" Cons by (cases "a' = []") auto
      have "length a' < length a" using Cons by simp
      with "1.IH" side have ih: "str_replace [p, q] new (a' @ b) =
          str_replace [p, q] new a' @ str_replace [p, q] new b" by blast
      from False Cons have "str_replace [p, q] new a = x # str_replace [p, q] new a'"
        by (simp add: str_replace_skip)
      moreover from np Cons have "str_replace [p, q] new (a @ b) = x # str_replace [p, q] new (a' @ b)"
        by (simp add: str_replace_skip)
      ultimately show ?thesis using ih by simp
    qed
  qed
qed

lemma html_bullet:
  "html_body (a @ [newline, bullet] @ b) = html_body a @ lit ''<br>&bull;'' @ html_body b"
proof -
  have nb: "newline \<noteq> bullet" by (simp add: newline_def bullet_def)
  have "str_replace [newline, bullet] (lit ''<br>&bull;'') (a @ [newline, bullet] @ b) =
          str_replace [newline, bullet] (lit ''<br>&bull;'') a @
          str_replace [newline, bullet] (lit ''<br>&bull;'') ([newline, bullet] @ b)"
    using nb by (intro str_replace_pair_append) simp_all
  also have "str_replace [newline, bullet] (lit ''<br>&bull;'') ([newline, bullet] @ b) =
          lit ''<br>&bull;'' @ str_replace [newline, bullet] (lit ''<br>&bull;'') b"
    by (rule str_replace_hit) simp
  finally have first: "str_replace [newline, bullet] (lit ''<br>&bull;'') (a @ [newline, bullet] @ b) =
          str_replace [newline, bullet] (lit ''<br>&bull;'') a @ lit ''<br>&bull;'' @
          str_replace [newline, bullet] (lit ''<br>&bull;'') b" .
  have "newline \<notin> set (lit ''<br>&bull;'')" by (simp add: lit_def newline_def)
  then have keep: "str_replace [newline] (lit ''<br>'') (lit ''<br>&bull;'') = lit ''<br>&bull;''"
    by (rule str_replace_single_id)
  show ?thesis
    unfolding html_body_def first
    by (simp add: str_replace_single_append keep)
qed

lemma html_newline:
  assumes "b = [] \<or> hd b \<noteq> bullet"
  shows "html_body (a @ [newline] @ b) = html_body a @ lit ''<br>'' @ html_body b"
proof -
  have nb: "newline \<noteq> bullet" by (simp add: newline_def bullet_def)
  have "str_replace [newline, bullet] (lit ''<br>&bull;'') (a @ [newline] @ b) =
          str_replace [newline, bullet] (lit ''<br>&bull;'') a @
          str_replace [newline, bullet] (lit ''<br>&bull;'') ([newline] @ b)"
    using nb by (intro str_replace_pair_append) simp_all
  also have "\<not> prefix [newline, bullet] (newline # b)"
    using assms by (cases b) auto
  then have "str_replace [newline, bullet] (lit ''<br>&bull;'') ([newline] @ b) =
          newline # str_replace [newline, bullet] (lit ''<br>&bull;'') b"
    by (simp add: str_replace_skip)
  finally have first: "str_replace [newline, bullet] (lit ''<br>&bull;'') (a @ [newline] @ b) =
          str_replace [newline, bullet] (lit ''<br>&bull;'') a @
          newline # str_replace [newline, bullet] (lit ''<br>&bull;'') b" .
  have one: "str_replace [newline] (lit ''<br>'') [newline] = lit ''<br>''"
    by (simp add: str_replace_single)
  have "str_replace [newline] (lit ''<br>'') (x @ newline # y) =
        str_replace [newline] (lit ''<br>'') x @ lit ''<br>'' @
        str_replace [newline] (lit ''<br>'') y" for x y
    using str_replace_single_append [of newline "lit ''<br>''" x "[newline] @ y"]
      str_replace_single_append [of newline "lit ''<br>''" "[newline]" y] one by simp
  then show ?thesis
    unfolding html_body_def first by simp
qed

lemma html_plain:
  assumes "newline \<notin> set a"
  shows "html_body a = a"
proof -
  have "\<not> sublist [newline, bullet] a"
    using assms by (auto simp: sublist_def)
  then have "str_replace [newline, bullet] (lit ''<br>&bull;'') a = a"
    by (intro str_replace_absent) simp_all
  with assms show ?thesis by (simp add: html_body_def str_replace_single_id)
qed

lemma html_no_newline: "newline \<notin> set (html_body a)"
  unfolding html_body_def
  by (rule str_replace_single_clean) (simp add: lit_def newline_def)

section \<open>Rendering\<close>

lemma name_prefix:
  assumes "c \<notin> set a" and "c \<notin> set b" and "prefix (a @ [c]) (b @ c # r)"
  shows "a = b"
  using assms
proof (induction a arbitrary: b)
  case Nil
  then show ?case by (cases b) auto
next
  case (Cons x a)
  then show ?case by (cases b) auto
qed

lemma replace_flatten:
  assumes "list_all plain segs" and "brace \<notin> set nm" and "close_brace \<notin> set nm"
  shows "str_replace (brace # nm @ [close_brace]) v (flatten segs) =
           flatten (map (replace_placeholder nm v) segs)"
  using assms(1)
proof (induction segs)
  case Nil
  show ?case by (simp add: str_replace_Nil)
next
  case (Cons seg segs)
  then have ih: "str_replace (brace # nm @ [close_brace]) v (flatten segs) =
           flatten (map (replace_placeholder nm v) segs)" by simp
  show ?case
  proof (cases seg)
    case (Text s)
    with Cons.prems have "brace \<notin> set s" by simp
    then have "str_replace (brace # nm @ [close_brace]) v (s @ flatten segs) =
                 s @ str_replace (brace # nm @ [close_brace]) v (flatten segs)"
      by (rule str_replace_pass)
    with Text ih show ?thesis by simp
  next
    case (Placeholder n)
    with Cons.prems have n: "brace \<notin> set n" "close_brace \<notin> set n" by simp_all
    show ?thesis
    proof (cases "n = nm")
      case True
      have "str_replace (brace # nm @ [close_brace]) v
              ((brace # nm @ [close_brace]) @ flatten segs) =
            v @ str_replace (brace # nm @ [close_brace]) v (flatten segs)"
        by (rule str_replace_hit) simp
      with True Placeholder ih show ?thesis by simp
    next
      case False
      have np: "\<not> prefix (brace # nm @ [close_brace]) (brace # n @ close_brace # flatten segs)"
      proof
        assume "prefix (brace # nm @ [close_brace]) (brace # n @ close_brace # flatten segs)"
        then have "prefix (nm @ [close_brace]) (n @ close_brace # flatten segs)" by simp
        from name_prefix [OF assms(3) n(2) this] False show False by simp
      qed
      have cb: "brace \<notin> set (n @ [close_brace])"
        using n(1) by (simp add: brace_def close_brace_def)
      have "str_replace (brace # nm @ [close_brace]) v (brace # n @ close_brace # flatten segs) =
              brace # str_replace (brace # nm @ [close_brace]) v ((n @ [close_brace]) @ flatten segs)"
        using np by (simp add: str_replace_skip)
      also have "str_replace (brace # nm @ [close_brace]) v ((n @ [close_brace]) @ flatten segs) =
              (n @ [close_brace]) @ str_replace (brace # nm @ [close_brace]) v (flatten segs)"
        using cb by (rule str_replace_pass)
      finally show ?thesis using False Placeholder ih by simp
    qed
  qed
qed

lemma replace_plain:
  assumes "list_all plain segs" and "brace \<notin> set v"
  shows "list_all plain (map (replace_placeholder nm v) segs)"
  using assms by (induction segs) (auto split: segment.splits elim: plain.elims)

lemma token_names:
  "lit ''{first_name}'' = brace # lit ''first_name'' @ [close_brace]"
  "lit ''{last_name}'' = brace # lit ''last_name'' @ [close_brace]"
  "lit ''{company_name}'' = brace # lit ''company_name'' @ [close_brace]"
  "lit ''{sender_name}'' = brace # lit ''sender_name'' @ [close_brace]"
  by (simp_all add: lit_def brace_def close_brace_def)

lemma names_clean:
  "brace \<notin> set (lit ''first_name'')" "close_brace \<notin> set (lit ''first_name'')"
  "brace \<notin> set (lit ''last_name'')" "close_brace \<notin> set (lit ''last_name'')"
  "brace \<notin> set (lit ''company_name'')" "close_brace \<notin> set (lit ''company_name'')"
  "brace \<notin> set (lit ''sender_name'')" "close_brace \<notin> set (lit ''sender_name'')"
  by (simp_all add: lit_def brace_def close_brace_def)

lemma names_distinct:
  "lit ''first_name'' \<noteq> lit ''last_name''" "lit ''first_name'' \<noteq> lit ''company_name''"
  "lit ''first_name'' \<noteq> lit ''sender_name''" "lit ''last_name'' \<noteq> lit ''company_name''"
  "lit ''last_name'' \<noteq> lit ''sender_name''" "lit ''company_name'' \<noteq> lit ''sender_name''"
  by (simp_all add: lit_def)

lemma subject_segments:
  "flatten (map (replace_placeholder (lit ''company_name'') cname)
     (map (replace_placeholder (lit ''last_name'') lname)
       (map (replace_placeholder (lit ''first_name'') fname) segs))) =
   spec_substitute (subject_fields fname lname cname) segs"
proof (induction segs)
  case Nil
  show ?case by simp
next
  case (Cons seg segs)
  then show ?case
    using names_distinct by (cases seg) (auto simp: subject_fields_def)
qed

lemma body_segments:
  "flatten (map (replace_placeholder (lit ''sender_name'') sname)
     (map (replace_placeholder (lit ''company_name'') cname)
       (map (replace_placeholder (lit ''last_name'') lname)
         (map (replace_placeholder (lit ''first_name'') fname) segs)))) =
   spec_substitute (body_fields fname lname cname sname) segs"
proof (induction segs)
  case Nil
  show ?case by simp
next
  case (Cons seg segs)
  then show ?case
    using names_distinct by (cases seg) (auto simp: subject_fields_def body_fields_def)
qed

lemma subject_refines:
  assumes "list_all plain segs" and "brace \<notin> set fname" and "brace \<notin> set lname"
  shows "personalize_subject fname lname cname (flatten segs) =
           spec_substitute (subject_fields fname lname cname) segs"
proof -
  let ?s1 = "map (replace_placeholder (lit ''first_name'') fname) segs"
  let ?s2 = "map (replace_placeholder (lit ''last_name'') lname) ?s1"
  have p1: "list_all plain ?s1" using assms(1,2) by (rule replace_plain)
  have p2: "list_all plain ?s2" using p1 assms(3) by (rule replace_plain)
  have "personalize_subject fname lname cname (flatten segs) =
          str_replace (lit ''{company_name}'') cname
            (str_replace (lit ''{last_name}'') lname (flatten ?s1))"
    unfolding personalize_subject_def token_names
    by (simp only: replace_flatten [OF assms(1) names_clean(1,2)])
  also have "\<dots> = str_replace (lit ''{company_name}'') cname (flatten ?s2)"
    unfolding token_names by (simp only: replace_flatten [OF p1 names_clean(3,4)])
  also have "\<dots> = flatten (map (replace_placeholder (lit ''company_name'') cname) ?s2)"
    unfolding token_names by (simp only: replace_flatten [OF p2 names_clean(5,6)])
  finally show ?thesis by (simp only: subject_segments)
qed

lemma body_refines:
  assumes "list_all plain segs" and "brace \<notin> set fname" and "brace \<notin> set lname"
    and "brace \<notin> set cname"
  shows "personalize_body fname lname cname sname (flatten segs) =
           spec_substitute (body_fields fname lname cname sname) segs"
proof -
  let ?s1 = "map (replace_placeholder (lit ''first_name'') fname) segs"
  let ?s2 = "map (replace_placeholder (lit ''last_name'') lname) ?s1"
  let ?s3 = "map (replace_placeholder (lit ''company_name'') cname) ?s2"
  have p1: "list_all plain ?s1" using assms(1,2) by (rule replace_plain)
  have p2: "list_all plain ?s2" using p1 assms(3) by (rule replace_plain)
  have p3: "list_all plain ?s3" using p2 assms(4) by (rule replace_plain)
  have "personalize_body fname lname cname sname (flatten segs) =
          str_replace (lit ''{sender_name}'') sname
            (str_replace (lit ''{company_name}'') cname
              (str_replace (lit ''{last_name}'') lname (flatten ?s1)))"
    unfolding personalize_body_def token_names
    by (simp only: replace_flatten [OF assms(1) names_clean(1,2)])
  also have "\<dots> = str_replace (lit ''{sender_name}'') sname
            (str_replace (lit ''{company_name}'') cname (flatten ?s2))"
    unfolding token_names by (simp only: replace_flatten [OF p1 names_clean(3,4)])
  also have "\<dots> = str_replace (lit ''{sender_name}'') sname (flatten ?s3)"
    unfolding token_names by (simp only: replace_flatten [OF p2 names_clean(5,6)])
  also have "\<dots> = flatten (map (replace_placeholder (lit ''sender_name'') sname) ?s3)"
    unfolding token_names by (simp only: replace_flatten [OF p3 names_clean(7,8)])
  finally show ?thesis by (simp only: body_segments)
qed

text \<open>
  C9, as the code has it. For a template in which every opening brace is closed before
  the next one opens, and field values without an opening brace, rendering replaces
  each of \<open>{first_name}\<close>, \<open>{last_name}\<close> and \<open>{company_name}\<close> by the value of its
  field, in a body also \<open>{sender_name}\<close>, and leaves every other token as it is; a
  subject keeps \<open>{sender_name}\<close>. An absent column and an absent sender name give the
  empty string. In the body, a newline followed by the bullet becomes \<open><br>&bull;\<close>, any
  other newline becomes \<open><br>\<close>, no newline is left, and the result is put between
  \<open><html><body>\<close> and \<open></body></html>\<close>. Rendering gives a string whenever the stored
  sender name is absent or a string, and this is the rendering the engine sends.
\<close>

theorem rendering_substitutes_placeholders:
  assumes "list_all plain segs"
    and "brace \<notin> set fname" and "brace \<notin> set lname" and "brace \<notin> set cname"
  shows "personalize_subject fname lname cname (flatten segs) =
           spec_substitute (subject_fields fname lname cname) segs \<and>
         personalize_body fname lname cname sname (flatten segs) =
           spec_substitute (body_fields fname lname cname sname) segs \<and>
         subject_fields fname lname cname (lit ''sender_name'') = None \<and>
         str_field None = [] \<and>
         name_of (config\<lparr>sender_name := None\<rparr>) = [] \<and>
         html_body (a @ [newline, bullet] @ b) =
           html_body a @ lit ''<br>&bull;'' @ html_body b \<and>
         (b = [] \<or> hd b \<noteq> bullet \<longrightarrow>
            html_body (a @ [newline] @ b) = html_body a @ lit ''<br>'' @ html_body b) \<and>
         (newline \<notin> set a \<longrightarrow> html_body a = a) \<and>
         newline \<notin> set (html_body a) \<and>
         html_content a = lit ''<html><body>'' @ html_body a @ lit ''</body></html>'' \<and>
         render_body fname lname cname None body =
           Inr (html_content (personalize_body fname lname cname [] body)) \<and>
         render_body fname lname cname (Some (Str sname)) body =
           Inr (html_content (personalize_body fname lname cname sname body)) \<and>
         render_body (str_field (col_first_name row)) (str_field (col_last_name row))
             (str_field (col_company_name row)) (map_option Str (sender_name config))
             (str_field (col_body row)) =
           Inr (att_html (make_attempt k config i row e)) \<and>
         att_subject (make_attempt k config i row e) =
           personalize_subject (str_field (col_first_name row)) (str_field (col_last_name row))
             (str_field (col_company_name row)) (str_field (col_subject row))"
proof -
  have names: "subject_fields fname lname cname (lit ''sender_name'') = None"
    using names_distinct by (simp add: subject_fields_def)
  have fields: "str_field None = []" "name_of (config\<lparr>sender_name := None\<rparr>) = []"
    by (simp_all add: str_field_def strip_def name_of_def)
  have render: "render_body fname lname cname None body =
           Inr (html_content (personalize_body fname lname cname [] body))"
    "render_body fname lname cname (Some (Str sname)) body =
           Inr (html_content (personalize_body fname lname cname sname body))"
    by (simp_all add: render_body_def)
  have engine: "render_body (str_field (col_first_name row)) (str_field (col_last_name row))
             (str_field (col_company_name row)) (map_option Str (sender_name config))
             (str_field (col_body row)) =
           Inr (att_html (make_attempt k config i row e))"
    "att_subject (make_attempt k config i row e) =
           personalize_subject (str_field (col_first_name row)) (str_field (col_last_name row))
             (str_field (col_company_name row)) (str_field (col_subject row))"
    by (simp_all add: render_body_def make_attempt_def Let_def name_of_def split: option.splits)
  show ?thesis
    by (intro conjI impI subject_refines [OF assms(1-3)] body_refines [OF assms] names fields
          html_bullet html_newline html_plain html_no_newline render engine)
       (simp_all add: html_content_def)
qed

lemma greeting_checks:
  "list_all plain greeting"
  "brace \<notin> set (lit ''Ann'')" "brace \<notin> set (lit ''Lee'')" "brace \<notin> set (lit ''Acme'')"
  by (simp_all add: greeting_def lit_def brace_def close_brace_def)

theorem rendering_substitutes_placeholders_witness:
  "list_all plain greeting \<and> brace \<notin> set (lit ''Ann'') \<and>
   flatten greeting = lit ''Hi {first_name} {x} from {sender_name}'' \<and>
   personalize_subject (lit ''Ann'') (lit ''Lee'') (lit ''Acme'')
     (lit ''Hi {first_name} {x} from {sender_name}'') =
     lit ''Hi Ann {x} from {sender_name}'' \<and>
   personalize_body (lit ''Ann'') (lit ''Lee'') (lit ''Acme'') (lit ''Bob'')
     (lit ''Hi {first_name} {x} from {sender_name}'') = lit ''Hi Ann {x} from Bob''"
proof -
  have f: "flatten greeting = lit ''Hi {first_name} {x} from {sender_name}''"
    by (simp add: greeting_def lit_def brace_def close_brace_def)
  have s: "spec_substitute (subject_fields (lit ''Ann'') (lit ''Lee'') (lit ''Acme'')) greeting =
             lit ''Hi Ann {x} from {sender_name}''"
    by (simp add: greeting_def subject_fields_def lit_def brace_def close_brace_def)
  have b: "spec_substitute (body_fields (lit ''Ann'') (lit ''Lee'') (lit ''Acme'') (lit ''Bob''))
             greeting = lit ''Hi Ann {x} from Bob''"
    by (simp add: greeting_def subject_fields_def body_fields_def lit_def brace_def
          close_brace_def)
  from rendering_substitutes_placeholders [OF greeting_checks, of "lit ''Bob''"]
  have "personalize_subject (lit ''Ann'') (lit ''Lee'') (lit ''Acme'') (flatten greeting) =
          spec_substitute (subject_fields (lit ''Ann'') (lit ''Lee'') (lit ''Acme'')) greeting"
    and "personalize_body (lit ''Ann'') (lit ''Lee'') (lit ''Acme'') (lit ''Bob'')
           (flatten greeting) =
          spec_substitute (body_fields (lit ''Ann'') (lit ''Lee'') (lit ''Acme'') (lit ''Bob''))
            greeting"
    by blast+
  then show ?thesis using greeting_checks(1,2) by (simp add: f s b)
qed

theorem rendering_counterexample:
  "name_of named_config = lit ''Bob'' \<and>
   col_subject template_row = Some (Str (lit ''{sender_name}'')) \<and>
   att_subject (make_attempt 0 named_config 0 template_row (lit ''b@y.org'')) =
     lit ''{sender_name}'' \<and>
   lit ''{sender_name}'' \<noteq> lit ''Bob'' \<and>
   personalize_subject (lit ''{last_name}'') (lit ''Lee'') [] (lit ''{first_name}'') =
     lit ''Lee'' \<and>
   lit ''Lee'' \<noteq> lit ''{last_name}'' \<and>
   personalize_subject [] (lit ''Lee'') [] (lit ''{last_{first_name}name}'') = lit ''Lee'' \<and>
   render_body [] [] [] (Some (NonStr (lit ''None''))) (lit ''Hi'') = Inl TypeError"
  by (simp add: make_attempt_def Let_def named_config_def template_row_def example_row_def
        example_config_def name_of_def str_field_def strip_def isspace_def lit_def
        personalize_subject_def personalize_body_def html_content_def html_body_def
        newline_def bullet_def str_replace.simps render_body_def)

section \<open>Bounds on the counters\<close>

lemma process_row_counters:
  assumes "process_row w delay i row r = st"
  shows "st \<noteq> Hang \<and>
         total_emails (shared (run_of st)) = total_emails (shared r) \<and>
         sent_emails (shared r) \<le> sent_emails (shared (run_of st)) \<and>
         sent_emails (shared (run_of st)) \<le> sent_emails (shared r) + 1 \<and>
         (current_index (shared (run_of st)) = current_index (shared r) \<or>
          current_index (shared (run_of st)) = i + 1)"
  using assms
  by (auto simp: process_row_def Let_def split: if_splits sum.splits)

lemma loop_body_counters:
  assumes "loop_body w delay df i r = st" and "st \<noteq> Hang"
  shows "total_emails (shared (run_of st)) = total_emails (shared r) \<and>
         sent_emails (shared r) \<le> sent_emails (shared (run_of st)) \<and>
         sent_emails (shared (run_of st)) \<le> sent_emails (shared r) + 1 \<and>
         (current_index (shared (run_of st)) = current_index (shared r) \<or>
          current_index (shared (run_of st)) = i + 1)"
proof -
  let ?r0 = "r\<lparr>shared := controls (control w i) (shared r)\<rparr>"
  have r0: "total_emails (shared ?r0) = total_emails (shared r)"
    "sent_emails (shared ?r0) = sent_emails (shared r)"
    "current_index (shared ?r0) = current_index (shared r)"
    by (simp_all add: controls_counters)
  show ?thesis
  proof (cases "stop_sending (shared ?r0)")
    case True
    with assms r0 show ?thesis by (auto simp: loop_body_def Let_def)
  next
    case ns: False
    show ?thesis
    proof (cases "wait_while_paused (shared ?r0)")
      case None
      with assms ns show ?thesis by (simp add: loop_body_def Let_def)
    next
      case (Some s')
      show ?thesis
      proof (cases "iloc df i")
        case (Inl e)
        with assms ns Some r0 show ?thesis by (auto simp: loop_body_def Let_def)
      next
        case (Inr row)
        with assms ns Some have "process_row w delay i row ?r0 = st"
          by (simp add: loop_body_def Let_def)
        from process_row_counters [OF this] r0 show ?thesis by simp
      qed
    qed
  qed
qed

lemma dispatch_loop_counters:
  assumes "dispatch_loop w delay df is r = Some (err, r')"
    and "sorted_wrt (<) is" and "\<forall>i \<in> set is. current_index (shared r) \<le> i"
  shows "total_emails (shared r') = total_emails (shared r) \<and>
         sent_emails (shared r) \<le> sent_emails (shared r') \<and>
         sent_emails (shared r') \<le> sent_emails (shared r) + int (length is) \<and>
         current_index (shared r) \<le> current_index (shared r')"
  using assms
proof (induction "is" arbitrary: r)
  case Nil
  then show ?case by simp
next
  case (Cons i rest)
  show ?case
  proof (cases "loop_body w delay df i r")
    case Hang
    with Cons.prems show ?thesis by simp
  next
    case (Next r1)
    from loop_body_counters [OF Next] have c1:
      "total_emails (shared r1) = total_emails (shared r)"
      "sent_emails (shared r) \<le> sent_emails (shared r1)"
      "sent_emails (shared r1) \<le> sent_emails (shared r) + 1"
      "current_index (shared r1) = current_index (shared r) \<or> current_index (shared r1) = i + 1"
      by simp_all
    from Cons.prems(1) Next have run: "dispatch_loop w delay df rest r1 = Some (err, r')" by simp
    from Cons.prems(2) have srt: "sorted_wrt (<) rest" and gt: "\<forall>j \<in> set rest. i < j" by simp_all
    from Cons.prems(3) have le: "current_index (shared r) \<le> i" by simp
    have "\<forall>j \<in> set rest. current_index (shared r1) \<le> j"
      using c1(4) gt le by fastforce
    from Cons.IH [OF run srt this] c1 le show ?thesis by auto
  next
    case (Break r1)
    from loop_body_counters [OF Break] Cons.prems(1,3) Break show ?thesis by auto
  next
    case (Raise e r1)
    from loop_body_counters [OF Raise] Cons.prems(1,3) Raise show ?thesis by auto
  qed
qed

text \<open>
  What does hold of the counters in every run that returns: the cursor never ends below
  the requested lower limit minus 1, and with a requested lower limit of at least 1 the
  deliveries never exceed the total.
\<close>

lemma job_counters:
  assumes "start_job w \<lparr>form_delay = Some delay, form_min_limit = Some min_limit,
                         form_max_limit = Some max_limit, form_excel = Some excel_file\<rparr>
             False s = (resp, Some (err, r))"
  shows "min_limit - 1 \<le> current_index (shared r)"
    and "0 \<le> sent_emails (shared r)"
    and "1 \<le> min_limit \<Longrightarrow> sent_emails (shared r) \<le> total_emails (shared r)"
proof -
  let ?s0 = "s\<lparr>paused := False, stop_sending := False, current_index := min_limit - 1,
               total_emails := 0, sent_emails := 0\<rparr>"
  from assms have run: "send_bulk_emails w excel_file delay min_limit max_limit ?s0 = Some (err, r)"
    by (simp add: start_job_def send_email_def)
  show "min_limit - 1 \<le> current_index (shared r)"
    and "0 \<le> sent_emails (shared r)"
    and "1 \<le> min_limit \<Longrightarrow> sent_emails (shared r) \<le> total_emails (shared r)"
  proof (atomize (full), cases "begin_job w excel_file min_limit max_limit ?s0")
    case (Inl e)
    with run show "min_limit - 1 \<le> current_index (shared r) \<and> 0 \<le> sent_emails (shared r) \<and>
        (1 \<le> min_limit \<longrightarrow> sent_emails (shared r) \<le> total_emails (shared r))"
      by (auto simp: send_bulk_emails_def)
  next
    case (Inr t)
    then obtain df hi r0 where t: "t = (df, hi, r0)" by (cases t) auto
    from Inr t obtain lo where
      lim: "adjust_limits (int (length df)) min_limit max_limit = (lo, hi)"
      and r0: "shared r0 = ?s0\<lparr>total_emails := hi - lo + 1, sent_emails := 0\<rparr>"
      by (auto simp: begin_job_def Let_def split: if_splits excel.splits prod.splits)
    from run Inr t obtain res where
      loop: "dispatch_loop w delay df (loop_range (shared r0) hi) r0 = Some res"
      and fin: "finish res = (err, r)"
      by (auto simp: send_bulk_emails_def)
    obtain e1 r1 where res: "res = (e1, r1)" by (cases res)
    have sh: "shared r = shared r1"
      using fin res by (cases e1) (auto simp: finish_def)
    have rng: "loop_range (shared r0) hi = [min_limit - 1 .. hi - 1]"
      by (simp add: loop_range_def r0)
    have srt: "sorted_wrt (<) [min_limit - 1 .. hi - 1]"
      using sorted_upto distinct_upto strict_sorted_iff by blast
    have bnd: "\<forall>i \<in> set [min_limit - 1 .. hi - 1]. current_index (shared r0) \<le> i"
      by (simp add: r0)
    from dispatch_loop_counters [OF loop [unfolded res rng] srt bnd]
    have c: "total_emails (shared r1) = hi - lo + 1"
      "0 \<le> sent_emails (shared r1)"
      "sent_emails (shared r1) \<le> int (length [min_limit - 1 .. hi - 1])"
      "min_limit - 1 \<le> current_index (shared r1)"
      by (simp_all add: r0)
    have len: "int (length [min_limit - 1 .. hi - 1]) \<le> hi - lo + 1" if "1 \<le> min_limit"
      using that lim by (auto simp: adjust_limits_def Let_def split: if_splits)
    from c len sh show "min_limit - 1 \<le> current_index (shared r) \<and> 0 \<le> sent_emails (shared r) \<and>
        (1 \<le> min_limit \<longrightarrow> sent_emails (shared r) \<le> total_emails (shared r))"
      by auto
  qed
qed

end
